theory Spec2Isabelle
  imports Complex_Main "HOL-Library.FSet" "HOL-Library.AList" "HOL-Library.Multiset"
begin

section \<open>Python strings and integers\<close>

text \<open>
  File and column names of the pipeline are modelled as \<open>string\<close>, one \<open>char\<close> per code point
  below 256. The counters \<open>k\<close>, \<open>i\<close> and \<open>j\<close> of the source start at 0 or 1 and are only
  incremented, so they are natural numbers.
\<close>

definition digit_char :: "nat \<Rightarrow> char" where
  "digit_char d = ''0123456789'' ! d"

text \<open>\<open>str(k)\<close> for a non-negative integer: its decimal digits, most significant first.\<close>

fun str_nat :: "nat \<Rightarrow> string" where
  "str_nat k = (if k < 10 then [digit_char k] else str_nat (k div 10) @ [digit_char (k mod 10)])"

declare str_nat.simps [simp del]

text \<open>
  The decimal digit value that the Unicode database gives to a character, for the code
  points that a \<open>char\<close> holds: below 256 the only decimal digits are \<open>0\<close> .. \<open>9\<close>.
\<close>

definition latin1_decimal :: "char \<Rightarrow> nat option" where
  "latin1_decimal c =
     (if (48::nat) \<le> of_char c \<and> of_char c \<le> (57::nat) then Some (of_char c - 48) else None)"

section \<open>ColumnNameResolver: the helpers of \<open>processAlgorithm\<close>\<close>

text \<open>
  \<open>base_name_from_clip\<close>: \<open>b = os.path.splitext(os.path.basename(path))[0]\<close>, then
  \<open>b[:-5] if b.endswith('_clip') else b\<close>. The \<open>os.path\<close> part depends on the platform and is
  taken as the parameter \<open>stem\<close>.
\<close>

definition endswith :: "string \<Rightarrow> string \<Rightarrow> bool" where
  "endswith b s \<longleftrightarrow> length s \<le> length b \<and> drop (length b - length s) b = s"

definition startswith :: "string \<Rightarrow> string \<Rightarrow> bool" where
  "startswith n p \<longleftrightarrow> take (length p) n = p"

definition base_name_from_clip :: "(string \<Rightarrow> string) \<Rightarrow> string \<Rightarrow> string" where
  "base_name_from_clip stem path =
     (let b = stem path in if endswith b ''_clip'' then take (length b - 5) b else b)"

text \<open>
  \<open>unique_name\<close>: the registry \<open>used_names\<close> is a Python set, which is finite; the loop
  \<open>while n in used_names: n = f'{base}_{k}'; k += 1\<close> is the recursion below, entered with
  \<open>n = base\<close> and \<open>k = 1\<close>. The function returns the name together with the updated registry.
\<close>

definition suffixed :: "string \<Rightarrow> nat \<Rightarrow> string" where
  "suffixed base k = base @ ''_'' @ str_nat k"

function unique_name_loop :: "string fset \<Rightarrow> string \<Rightarrow> string \<Rightarrow> nat \<Rightarrow> string" where
  "unique_name_loop used base n k =
     (if n |\<in>| used then unique_name_loop used base (suffixed base k) (k + 1) else n)"
  by pat_completeness auto

text \<open>The loop stops: the names \<open>base_k\<close> are pairwise different and the registry is finite.\<close>

lemma digit_char_inj: "d < 10 \<Longrightarrow> e < 10 \<Longrightarrow> digit_char d = digit_char e \<Longrightarrow> d = e"
proof -
  assume d: "d < 10" and e: "e < 10" and eq: "digit_char d = digit_char e"
  have "distinct ''0123456789''" by simp
  moreover have "d < length ''0123456789''" and "e < length ''0123456789''"
    using d e by simp_all
  ultimately show ?thesis using eq unfolding digit_char_def
    by (simp only: nth_eq_iff_index_eq)
qed

lemma str_nat_nonempty: "str_nat k \<noteq> []"
  by (subst str_nat.simps) simp

lemma str_nat_inj: "str_nat a = str_nat b \<Longrightarrow> a = b"
proof (induction a arbitrary: b rule: str_nat.induct)
  case (1 a)
  show ?case
  proof (cases "a < 10")
    case True
    show ?thesis
    proof (cases "b < 10")
      case b: True
      from "1.prems" True b have "digit_char a = digit_char b"
        by (simp add: str_nat.simps[of a] str_nat.simps[of b])
      with True b show ?thesis by (intro digit_char_inj)
    next
      case b: False
      from "1.prems" True b str_nat_nonempty[of "b div 10"] show ?thesis
        by (simp add: str_nat.simps[of a] str_nat.simps[of b])
    qed
  next
    case False
    show ?thesis
    proof (cases "b < 10")
      case b: True
      from "1.prems" False b str_nat_nonempty[of "a div 10"] show ?thesis
        by (simp add: str_nat.simps[of a] str_nat.simps[of b])
    next
      case b: False
      from "1.prems" False b have eq: "str_nat (a div 10) = str_nat (b div 10)"
        and dg: "digit_char (a mod 10) = digit_char (b mod 10)"
        by (simp_all add: str_nat.simps[of a] str_nat.simps[of b])
      from "1.IH"[OF False eq] have "a div 10 = b div 10" .
      moreover from dg have "a mod 10 = b mod 10" by (intro digit_char_inj) simp_all
      ultimately show ?thesis by (metis div_mult_mod_eq)
    qed
  qed
qed

lemma suffixed_inj: "suffixed base j = suffixed base k \<Longrightarrow> j = k"
  by (simp add: suffixed_def str_nat_inj)

lemma finite_suffixes: "finite {j. suffixed base j |\<in>| used}"
proof -
  have "inj_on (suffixed base) {j. suffixed base j |\<in>| used}"
    by (rule inj_onI) (rule suffixed_inj)
  moreover have "suffixed base ` {j. suffixed base j |\<in>| used} \<subseteq> fset used" by auto
  ultimately show ?thesis by (metis finite_fset finite_subset finite_imageD)
qed

termination unique_name_loop
proof (relation "measure (\<lambda>(used, base, n, k).
    card {j. k \<le> j \<and> suffixed base j |\<in>| used} + (if n |\<in>| used then 1 else 0))")
  show "wf (measure (\<lambda>(used, base, n, k).
    card {j. k \<le> j \<and> suffixed base j |\<in>| used} + (if n |\<in>| used then 1 else 0)))"
    by simp
next
  fix used :: "string fset" and base n :: string and k :: nat
  assume n: "n |\<in>| used"
  let ?A = "\<lambda>k. {j. k \<le> j \<and> suffixed base j |\<in>| used}"
  have fin: "finite (?A k)"
    by (rule finite_subset[OF _ finite_suffixes[of base used]]) auto
  have "card (?A (k + 1)) + (if suffixed base k |\<in>| used then 1 else 0) = card (?A k)"
  proof (cases "suffixed base k |\<in>| used")
    case True
    have "?A k = insert k (?A (k + 1))" using True by (auto simp: le_Suc_eq)
    moreover have "k \<notin> ?A (k + 1)" by simp
    moreover have "finite (?A (k + 1))" by (rule finite_subset[OF _ fin]) auto
    ultimately show ?thesis using True by simp
  next
    case False
    have "?A k = ?A (k + 1)"
      using False by (auto simp: le_Suc_eq) (metis Suc_leI le_neq_implies_less)
    then show ?thesis using False by simp
  qed
  with n show "((used, base, suffixed base k, k + 1), (used, base, n, k)) \<in>
    measure (\<lambda>(used, base, n, k).
      card {j. k \<le> j \<and> suffixed base j |\<in>| used} + (if n |\<in>| used then 1 else 0))"
    by simp
qed

declare unique_name_loop.simps [simp del]

definition unique_name :: "string \<Rightarrow> string fset \<Rightarrow> string \<times> string fset" where
  "unique_name base used = (let n = unique_name_loop used base base 1 in (n, finsert n used))"

text \<open>
  A sequence of calls, each on the registry the previous one left: the sampling loop calls
  \<open>unique_name\<close> once per raster, and the list comprehension
  \<open>[unique_name(f'{final_base}_B{j+1}') for j in range(...)]\<close> calls it from left to right.
\<close>

fun unique_names :: "string list \<Rightarrow> string fset \<Rightarrow> string list \<times> string fset" where
  "unique_names [] used = ([], used)"
| "unique_names (b # bs) used =
     (let (n, used1) = unique_name b used;
          (ns, used2) = unique_names bs used1
      in (n # ns, used2))"

text \<open>
  \<open>sort_by_suffix\<close>: the key is \<open>int(m.group(1)) if m else 1\<close> for
  \<open>m = re.search(r'(\d+)$', n)\<close>. It is defined for names over any type \<open>'c\<close> of characters,
  so that it covers every Python string (the characters are then all Unicode code points):
  \<^item> \<open>decimal c\<close> is the decimal digit value of the character \<open>c\<close> in the Unicode database
    (\<open>unicodedata.decimal\<close>), \<open>None\<close> for a character that is not a decimal digit. In a
    \<open>str\<close> pattern \<open>\d\<close> matches exactly the characters that have such a value, in every
    script, and \<open>int()\<close> reads a run of them in base 10 by these values. The table is a
    parameter;
  \<^item> \<open>newline\<close> is the character \<open>\n\<close>. Without the MULTILINE flag \<open>$\<close> matches at the end of
    the string and also just before a newline that is the last character, so the group is
    the longest run of decimal digits that ends there;
  \<^item> \<open>sorted\<close> is stable, as \<open>sort_key\<close> is.
  From CPython 3.11 on \<open>int()\<close> raises \<open>ValueError\<close> on a run of more digits than
  \<open>sys.get_int_max_str_digits()\<close> (4300 unless configured); names with such a run are outside
  the model.
\<close>

definition dollar_body :: "'c \<Rightarrow> 'c list \<Rightarrow> 'c list" where
  "dollar_body newline n = (if n \<noteq> [] \<and> last n = newline then butlast n else n)"

definition trailing_digits :: "('c \<Rightarrow> nat option) \<Rightarrow> 'c list \<Rightarrow> 'c list" where
  "trailing_digits decimal s = rev (takeWhile (\<lambda>c. decimal c \<noteq> None) (rev s))"

definition int_of_digits :: "('c \<Rightarrow> nat option) \<Rightarrow> 'c list \<Rightarrow> nat" where
  "int_of_digits decimal s =
     foldl (\<lambda>a c. 10 * a + (case decimal c of Some d \<Rightarrow> d | None \<Rightarrow> 0)) 0 s"

definition keyfunc :: "('c \<Rightarrow> nat option) \<Rightarrow> 'c \<Rightarrow> 'c list \<Rightarrow> nat" where
  "keyfunc decimal newline n =
     (let g = trailing_digits decimal (dollar_body newline n)
      in if g = [] then 1 else int_of_digits decimal g)"

definition sort_by_suffix :: "('c \<Rightarrow> nat option) \<Rightarrow> 'c \<Rightarrow> 'c list list \<Rightarrow> 'c list list" where
  "sort_by_suffix decimal newline names = sort_key (keyfunc decimal newline) names"

section \<open>The external operations\<close>

text \<open>
  \<open>processAlgorithm\<close> drives QGIS through \<open>processing.run\<close>, the layer API and \<open>os.path\<close>.
  None of that is code of this repository: each operation is a field of the record \<open>env\<close>,
  and every result holds for all environments. A call inside \<open>try: ... except Exception\<close>
  either returns a value or raises. \<open>'p\<close> is the type of polygon layers, \<open>'g\<close> the type of
  point layers (the grid) and \<open>'f\<close> the type of Python's floating-point numbers, whose
  arithmetic (IEEE doubles, with their rounding) is a parameter as well.
\<close>

datatype 'a outcome = Returned 'a | Raised

text \<open>
  The feedback channel (\<open>pushInfo\<close>, \<open>pushWarning\<close>) and the calls on the grid's edit session,
  in program order. Progress reports (\<open>setProgress\<close>) are left out, and so is the ellipsis
  character that ends some of the source's messages.
\<close>

datatype event =
    PushInfo string
  | PushWarning string
  | StartEditing
  | RenameAttributes "(nat \<times> string) list"
  | UpdateFields
  | RollBack
  | CommitChanges

text \<open>The exceptions that leave \<open>processAlgorithm\<close>.\<close>

datatype error = QgsProcessingException string | ZeroDivisionError | OverflowError | ValueError

text \<open>\<open>int(x)\<close> on a float: the truncated value, or \<open>x\<close> is infinite or not a number.\<close>

datatype truncation = Truncated int | Infinite | NotANumber

text \<open>The arguments of \<open>QgsRectangle(left, bottom, right, top)\<close>.\<close>

record 'f rect =
  xMinimum :: 'f
  yMinimum :: 'f
  xMaximum :: 'f
  yMaximum :: 'f

text \<open>
  What the code reads from \<open>ref_layer.extent()\<close>: \<open>center().x()\<close>, \<open>center().y()\<close>, \<open>width()\<close>
  and \<open>height()\<close>.
\<close>

record 'f extent =
  center_x :: 'f
  center_y :: 'f
  width :: 'f
  height :: 'f

text \<open>What the code reads from \<open>ref_layer = QgsRasterLayer(clipped_rasters[0], 'raster_ref')\<close>.\<close>

record 'f raster_layer =
  isValid :: bool
  extent :: "'f extent"
  rasterUnitsPerPixelX :: 'f
  rasterUnitsPerPixelY :: 'f
  crs :: string

record ('f, 'p, 'g) env =
  float_add :: "'f \<Rightarrow> 'f \<Rightarrow> 'f"
  float_sub :: "'f \<Rightarrow> 'f \<Rightarrow> 'f"
  float_mul :: "'f \<Rightarrow> 'f \<Rightarrow> 'f"
  float_div :: "'f \<Rightarrow> 'f \<Rightarrow> 'f"
  float_is_zero :: "'f \<Rightarrow> bool"
  float_of_int :: "int \<Rightarrow> 'f"
  int_of_float :: "'f \<Rightarrow> truncation"
  polygon_isValid :: "'p \<Rightarrow> bool"
  stem :: "string \<Rightarrow> string"
  temp_path :: "string \<Rightarrow> string"
  path_exists :: "string \<Rightarrow> bool"
  canceled_clipping :: "nat \<Rightarrow> bool"
  canceled_sampling :: "nat \<Rightarrow> bool"
  cliprasterbymasklayer :: "string \<Rightarrow> 'p \<Rightarrow> string \<Rightarrow> string option outcome"
  QgsRasterLayer :: "string \<Rightarrow> 'f raster_layer"
  creategrid :: "'f rect \<Rightarrow> 'f \<Rightarrow> 'f \<Rightarrow> string \<Rightarrow> 'g outcome"
  buffer :: "'p \<Rightarrow> real \<Rightarrow> 'p outcome"
  clip :: "'g \<Rightarrow> 'p \<Rightarrow> 'g outcome"
  field_names :: "'g \<Rightarrow> string list"
  rastersampling :: "'g \<Rightarrow> string \<Rightarrow> string \<Rightarrow> 'g outcome"
  startEditing :: "'g \<Rightarrow> 'g"
  renameAttributes :: "(nat \<times> string) list \<Rightarrow> 'g \<Rightarrow> 'g \<times> bool outcome"
  updateFields :: "'g \<Rightarrow> 'g"
  rollBack :: "'g \<Rightarrow> 'g"
  commitChanges :: "'g \<Rightarrow> 'g"

text \<open>
  \<^item> \<open>float_add\<close>, \<open>float_sub\<close>, \<open>float_mul\<close> and \<open>float_div\<close> are \<open>+\<close>, \<open>-\<close>, \<open>*\<close> and \<open>/\<close> on
    floats (the last for a divisor that is not zero), \<open>float_is_zero y\<close> is \<open>y == 0\<close>, the
    case in which \<open>x / y\<close> raises \<open>ZeroDivisionError\<close>, \<open>float_of_int\<close> is the conversion
    of an \<open>int\<close> operand and \<open>int_of_float\<close> is \<open>int()\<close>;
  \<^item> the buffer distance is a float that the code only compares with 0 and negates; both
    are exact, and the distance is modelled by its real value;
  \<^item> \<open>stem path\<close> is \<open>os.path.splitext(os.path.basename(path))[0]\<close>, \<open>temp_path f\<close> is
    \<open>os.path.join(temp_dir, f)\<close>, \<open>path_exists\<close> is \<open>os.path.exists\<close>;
  \<^item> \<open>canceled_clipping i\<close> and \<open>canceled_sampling i\<close> are \<open>feedback.isCanceled()\<close> at the top
    of iteration \<open>i\<close> of the two loops;
  \<^item> a raster layer of the input list is given by its source path; \<open>cliprasterbymasklayer\<close>
    takes INPUT, MASK and OUTPUT and returns \<open>result.get('OUTPUT')\<close>;
  \<^item> \<open>creategrid\<close> takes EXTENT, HSPACING, VSPACING and CRS; \<open>buffer\<close> takes INPUT and
    DISTANCE; \<open>clip\<close> takes INPUT and OVERLAY; \<open>rastersampling\<close> takes INPUT, RASTERCOPY and
    COLUMN_PREFIX; each returns the layer under \<open>'OUTPUT'\<close>, and a missing key raises like
    the call itself;
  \<^item> \<open>field_names g\<close> is \<open>[f.name() for f in g.fields()]\<close>;
  \<^item> \<open>renameAttributes m g\<close> is \<open>g.dataProvider().renameAttributes(m)\<close>: the layer as the
    provider left it, and the flag it returned or the fact that it raised;
  \<^item> \<open>startEditing\<close>, \<open>updateFields\<close>, \<open>rollBack\<close> and \<open>commitChanges\<close> change the layer in
    place; their return values are not read by the code.
\<close>

section \<open>GeometryClipper\<close>

text \<open>
  One iteration of the loop over \<open>raster_layers\<close> (lines 160 to 184). The warning texts end
  with the exception's message in the source; the model keeps the part before it.
\<close>

definition clip_step ::
  "('f, 'p, 'g) env \<Rightarrow> 'p \<Rightarrow> string \<Rightarrow> string list \<times> event list \<Rightarrow> string list \<times> event list" where
  "clip_step q polygon_layer raster_path = (\<lambda>(clipped_rasters, log).
     let base_name = stem q raster_path;
         output_clip = temp_path q (base_name @ ''_clip.tif'');
         log1 = log @ [PushInfo (''Clipping raster: '' @ base_name)]
     in case cliprasterbymasklayer q raster_path polygon_layer output_clip of
          Raised \<Rightarrow> (clipped_rasters, log1 @ [PushWarning (''Error clipping '' @ base_name)])
        | Returned None \<Rightarrow>
            (clipped_rasters, log1 @ [PushWarning (''Could not save clipped raster: '' @ base_name)])
        | Returned (Some out) \<Rightarrow>
            if out \<noteq> [] \<and> path_exists q out then (clipped_rasters @ [out], log1)
            else (clipped_rasters,
                  log1 @ [PushWarning (''Could not save clipped raster: '' @ base_name)]))"

fun clip_loop ::
  "('f, 'p, 'g) env \<Rightarrow> 'p \<Rightarrow> nat \<Rightarrow> string list \<Rightarrow> string list \<times> event list
     \<Rightarrow> string list \<times> event list" where
  "clip_loop q polygon_layer i [] st = st"
| "clip_loop q polygon_layer i (raster # rest) st =
     (if canceled_clipping q i then st
      else clip_loop q polygon_layer (Suc i) rest (clip_step q polygon_layer raster st))"

section \<open>ReferenceGridBuilder\<close>

text \<open>
  Lines 209 to 219, operation by operation in the source's order: \<open>int(width / res_x) + 1\<close>,
  then \<open>center_x - (n_x * res_x) / 2\<close> and \<open>left + n_x * res_x\<close>, where \<open>n_x\<close> and 2 are
  \<open>int\<close> operands that Python converts to floats. A division by zero raises
  \<open>ZeroDivisionError\<close>, \<open>int()\<close> raises \<open>OverflowError\<close> on an infinity and \<open>ValueError\<close> on
  a NaN.
\<close>

definition cell_count :: "('f, 'p, 'g) env \<Rightarrow> 'f \<Rightarrow> 'f \<Rightarrow> error + int" where
  "cell_count q len res =
     (if float_is_zero q res then Inl ZeroDivisionError
      else case int_of_float q (float_div q len res) of
             Truncated k \<Rightarrow> Inr (k + 1)
           | Infinite \<Rightarrow> Inl OverflowError
           | NotANumber \<Rightarrow> Inl ValueError)"

definition grid_extent :: "('f, 'p, 'g) env \<Rightarrow> 'f extent \<Rightarrow> 'f \<Rightarrow> 'f \<Rightarrow> error + 'f rect" where
  "grid_extent q ext res_x res_y =
     (case cell_count q (width ext) res_x of Inl e \<Rightarrow> Inl e | Inr n_x \<Rightarrow>
      case cell_count q (height ext) res_y of Inl e \<Rightarrow> Inl e | Inr n_y \<Rightarrow>
        let left = float_sub q (center_x ext)
                     (float_div q (float_mul q (float_of_int q n_x) res_x) (float_of_int q 2));
            bottom = float_sub q (center_y ext)
                     (float_div q (float_mul q (float_of_int q n_y) res_y) (float_of_int q 2));
            right = float_add q left (float_mul q (float_of_int q n_x) res_x);
            top = float_add q bottom (float_mul q (float_of_int q n_y) res_y)
        in Inr \<lparr>xMinimum = left, yMinimum = bottom, xMaximum = right, yMaximum = top\<rparr>)"

section \<open>BoundaryMasker\<close>

text \<open>Lines 249 to 271: the mask layer and the feedback of the buffer step.\<close>

definition mask_layer :: "('f, 'p, 'g) env \<Rightarrow> 'p \<Rightarrow> real \<Rightarrow> 'p \<times> event list" where
  "mask_layer q polygon_layer buffer_size =
     (if buffer_size > 0 then
        (case buffer q polygon_layer (- buffer_size) of
           Returned buffered \<Rightarrow> (buffered, [])
         | Raised \<Rightarrow> (polygon_layer, [PushWarning ''Buffer failed'']))
      else (polygon_layer, []))"

section \<open>RasterSampler\<close>

definition tmp_prefix :: "nat \<Rightarrow> string" where
  "tmp_prefix i = ''tmp'' @ str_nat i @ ''__''"

text \<open>Lines 362 to 366: the fields the sampling step added.\<close>

definition new_fields_of :: "string \<Rightarrow> string list \<Rightarrow> string list \<Rightarrow> string list" where
  "new_fields_of prefix fields_before all_names =
     (let new_fields = filter (\<lambda>n. startswith n prefix) all_names
      in if new_fields = [] then filter (\<lambda>n. n \<notin> set fields_before) all_names
         else new_fields)"

text \<open>Lines 370 to 373: the final names of \<open>N\<close> new fields, and the registry afterwards.\<close>

definition band_name :: "string \<Rightarrow> nat \<Rightarrow> string" where
  "band_name final_base j = final_base @ ''_B'' @ str_nat (j + 1)"

definition final_names_of :: "string \<Rightarrow> nat \<Rightarrow> string fset \<Rightarrow> string list \<times> string fset" where
  "final_names_of final_base N used =
     (if N \<le> 1 then ([final_base], used)
      else unique_names (map (band_name final_base) [0..<N]) used)"

text \<open>\<open>QgsFields.indexOf\<close>: the position of the field of that name, \<open>-1\<close> (here \<open>None\<close>) if absent.\<close>

fun indexOf :: "string list \<Rightarrow> string \<Rightarrow> nat option" where
  "indexOf [] name = None"
| "indexOf (f # fs) name = (if f = name then Some 0 else map_option Suc (indexOf fs name))"

text \<open>
  Lines 377 to 383: \<open>rename_map\<close> is a dict; \<open>rename_map[idx] = new\<close> replaces the value of a
  key already present and appends a new key otherwise, as \<open>AList.update\<close> does.
\<close>

fun build_rename_map ::
  "string list \<Rightarrow> (string \<times> string) list \<Rightarrow> (nat \<times> string) list \<Rightarrow> (nat \<times> string) list" where
  "build_rename_map fs [] rename_map = rename_map"
| "build_rename_map fs ((old, new) # rest) rename_map =
     (if old = new then build_rename_map fs rest rename_map
      else case indexOf fs old of
             None \<Rightarrow> build_rename_map fs rest rename_map
           | Some idx \<Rightarrow> build_rename_map fs rest (AList.update idx new rename_map))"

text \<open>Lines 385 to 395: the edit session, entered only with a non-empty \<open>rename_map\<close>.\<close>

definition rename_fields ::
  "('f, 'p, 'g) env \<Rightarrow> string \<Rightarrow> (nat \<times> string) list \<Rightarrow> 'g \<times> event list \<Rightarrow> 'g \<times> event list" where
  "rename_fields q final_base rename_map = (\<lambda>(grid, log).
     if rename_map = [] then (grid, log)
     else
       let g1 = startEditing q grid;
           log1 = log @ [StartEditing, RenameAttributes rename_map]
       in case renameAttributes q rename_map g1 of
            (g2, Raised) \<Rightarrow>
              (g2, log1 @ [PushWarning (''Error renaming fields for '' @ final_base)])
          | (g2, Returned ok) \<Rightarrow>
              let g3 = updateFields q g2
              in if \<not> ok
                 then (rollBack q g3,
                       log1 @ [UpdateFields, RollBack,
                               PushWarning ''Field renaming failed for one or more fields.''])
                 else (commitChanges q g3, log1 @ [UpdateFields, CommitChanges]))"

text \<open>
  One iteration of the sampling loop (lines 336 to 395) on the state
  \<open>(used_names, grid, log)\<close>. Field names are \<open>string\<close>s, so \<open>sort_by_suffix\<close> is used with
  the digits \<open>latin1_decimal\<close>.
\<close>

definition sample_step ::
  "('f, 'p, 'g) env \<Rightarrow> nat \<Rightarrow> string \<Rightarrow> string fset \<times> 'g \<times> event list
     \<Rightarrow> string fset \<times> 'g \<times> event list" where
  "sample_step q i r_path = (\<lambda>(used_names, grid, log).
     let base = base_name_from_clip (stem q) r_path;
         (final_base, used1) = unique_name base used_names;
         fields_before = field_names q grid;
         log1 = log @ [PushInfo (''Extracting values from: '' @ final_base)]
     in case rastersampling q grid r_path (tmp_prefix i) of
          Raised \<Rightarrow> (used1, grid, log1 @ [PushWarning (''Error sampling '' @ final_base)])
        | Returned grid1 \<Rightarrow>
            let all_names = field_names q grid1;
                new_fields = new_fields_of (tmp_prefix i) fields_before all_names;
                new_fields_sorted = sort_by_suffix latin1_decimal (CHR 0x0A) new_fields;
                (final_names, used2) =
                   final_names_of final_base (length new_fields_sorted) used1;
                rename_map =
                   build_rename_map (field_names q grid1) (zip new_fields_sorted final_names) [];
                (grid2, log2) = rename_fields q final_base rename_map (grid1, log1)
            in (used2, grid2, log2))"

fun sampling_loop ::
  "('f, 'p, 'g) env \<Rightarrow> nat \<Rightarrow> string list \<Rightarrow> string fset \<times> 'g \<times> event list
     \<Rightarrow> string fset \<times> 'g \<times> event list" where
  "sampling_loop q i [] st = st"
| "sampling_loop q i (r_path # rest) st =
     (if canceled_sampling q i then st
      else sampling_loop q (Suc i) rest (sample_step q i r_path st))"

section \<open>The pipeline\<close>

text \<open>
  \<open>processAlgorithm\<close> up to the end of the sampling loop (lines 128 to 395): the value is the
  exception that left the function, or the final grid with the feedback. The registry starts
  empty (\<open>used_names = set()\<close>). Creating the temporary folder (lines 142 to 143) and writing
  the two output files (lines 397 to 465) contain no \<open>raise\<close> and are not part of the model;
  \<open>parameterAsVectorLayer\<close> gives the polygon layer or \<open>None\<close>.
\<close>

definition processAlgorithm ::
  "('f, 'p, 'g) env \<Rightarrow> 'p option \<Rightarrow> string list \<Rightarrow> real \<Rightarrow> error + 'g \<times> event list" where
  "processAlgorithm q polygon raster_layers buffer_size =
     (case polygon of
        None \<Rightarrow> Inl (QgsProcessingException ''Error: invalid field polygon.'')
      | Some polygon_layer \<Rightarrow>
     if \<not> polygon_isValid q polygon_layer
       then Inl (QgsProcessingException ''Error: invalid field polygon.'')
     else if raster_layers = []
       then Inl (QgsProcessingException ''Error: no rasters selected.'')
     else
       let (clipped_rasters, log1) =
             clip_loop q polygon_layer 0 raster_layers ([], [PushInfo ''Starting processing'']) in
       if clipped_rasters = []
         then Inl (QgsProcessingException ''No valid rasters after clipping.'')
       else
         let ref_layer = QgsRasterLayer q (hd clipped_rasters) in
         if \<not> isValid ref_layer
           then Inl (QgsProcessingException ''Error loading first clipped raster.'')
         else
           let res_x = rasterUnitsPerPixelX ref_layer;
               res_y = rasterUnitsPerPixelY ref_layer
           in case grid_extent q (extent ref_layer) res_x res_y of
                Inl e \<Rightarrow> Inl e
              | Inr ge \<Rightarrow>
           (case creategrid q ge res_x res_y (crs ref_layer) of
              Raised \<Rightarrow> Inl (QgsProcessingException ''Grid creation failed'')
            | Returned grid_layer \<Rightarrow>
           let (mask, log2) = mask_layer q polygon_layer buffer_size in
           (case clip q grid_layer mask of
              Raised \<Rightarrow> Inl (QgsProcessingException ''Grid clipping failed'')
            | Returned grid \<Rightarrow>
           let (used_names, grid', log3) =
                 sampling_loop q 0 clipped_rasters
                   ({||}, grid,
                    log1 @ [PushInfo ''Creating point grid''] @
                    [PushInfo ''Applying internal buffer''] @ log2 @
                    [PushInfo ''Clipping grid to field boundary'', PushInfo ''Sampling rasters''])
           in Inr (grid', log3 @ [PushInfo ''Writing final outputs'']))))"


section \<open>Example environments\<close>

text \<open>
  Concrete environments on which the results below are instantiated. A grid is the list of
  its field names and a polygon layer is a name; paths are POSIX paths; every clip succeeds;
  the grid starts with the field \<open>id\<close>. The reference raster is 10 by 10 units around (5, 5)
  with pixels of size 1: on these values every operation of the grid computation is exact
  in doubles, so the floats of the examples are real numbers with the exact operations.
  The sampling step and the provider's \<open>renameAttributes\<close> are parameters.
\<close>

text \<open>
  \<open>os.path.splitext(os.path.basename(path))[0]\<close> on POSIX: the part after the last slash,
  without the extension that starts at its last dot, leading dots not counting.
\<close>

definition posix_stem :: "string \<Rightarrow> string" where
  "posix_stem path =
     (let name = rev (takeWhile (\<lambda>c. c \<noteq> CHR ''/'') (rev path));
          dots = takeWhile (\<lambda>c. c = CHR ''.'') name;
          rest = dropWhile (\<lambda>c. c = CHR ''.'') name
      in if CHR ''.'' \<in> set rest
         then dots @ rev (tl (dropWhile (\<lambda>c. c \<noteq> CHR ''.'') (rev rest)))
         else name)"

definition example_env ::
  "(string list \<Rightarrow> string \<Rightarrow> string \<Rightarrow> string list outcome) \<Rightarrow>
   ((nat \<times> string) list \<Rightarrow> string list \<Rightarrow> string list \<times> bool outcome) \<Rightarrow>
   (real, string, string list) env" where
  "example_env sampler renamer =
     \<lparr>float_add = (\<lambda>x y. x + y),
      float_sub = (\<lambda>x y. x - y),
      float_mul = (\<lambda>x y. x * y),
      float_div = (\<lambda>x y. x / y),
      float_is_zero = (\<lambda>y. y = 0),
      float_of_int = real_of_int,
      int_of_float = (\<lambda>x. Truncated (if 0 \<le> x then \<lfloor>x\<rfloor> else \<lceil>x\<rceil>)),
      polygon_isValid = (\<lambda>p. True),
      stem = posix_stem,
      temp_path = (\<lambda>f. ''/tmp/'' @ f),
      path_exists = (\<lambda>p. True),
      canceled_clipping = (\<lambda>i. False),
      canceled_sampling = (\<lambda>i. False),
      cliprasterbymasklayer = (\<lambda>raster_path mask output. Returned (Some output)),
      QgsRasterLayer = (\<lambda>path.
        \<lparr>isValid = True,
         extent = \<lparr>center_x = 5, center_y = 5, width = 10, height = 10\<rparr>,
         rasterUnitsPerPixelX = 1, rasterUnitsPerPixelY = 1, crs = ''EPSG:32632''\<rparr>),
      creategrid = (\<lambda>ext hspacing vspacing crs. Returned [''id'']),
      buffer = (\<lambda>p distance. Returned p),
      clip = (\<lambda>g overlay. Returned g),
      field_names = (\<lambda>g. g),
      rastersampling = sampler,
      startEditing = (\<lambda>g. g),
      renameAttributes = renamer,
      updateFields = (\<lambda>g. g),
      rollBack = (\<lambda>g. g),
      commitChanges = (\<lambda>g. g)\<rparr>"

text \<open>A sampling step that adds one column per band, named by the prefix and the band number.\<close>

definition sample_bands :: "nat \<Rightarrow> string list \<Rightarrow> string \<Rightarrow> string \<Rightarrow> string list outcome" where
  "sample_bands n g r_path prefix = Returned (g @ map (\<lambda>j. prefix @ str_nat (Suc j)) [0..<n])"

text \<open>
  Two providers. The first refuses a name that a field already has and an index out of
  range, renames the rest and reports the refusal, as the providers of QGIS do. The second
  renames the first field of the map and then raises.
\<close>

definition rename_refusing ::
  "(nat \<times> string) list \<Rightarrow> string list \<Rightarrow> string list \<times> bool outcome" where
  "rename_refusing m g =
     (let (fs, ok) =
        fold (\<lambda>(idx, new) (fs, ok).
                if idx \<ge> length fs \<or> new \<in> set fs then (fs, False) else (fs[idx := new], ok))
             m (g, True)
      in (fs, Returned ok))"

definition rename_raising ::
  "(nat \<times> string) list \<Rightarrow> string list \<Rightarrow> string list \<times> bool outcome" where
  "rename_raising m g =
     (case m of [] \<Rightarrow> (g, Raised) | (idx, new) # rest \<Rightarrow> (g[idx := new], Raised))"

text \<open>The example environment with one raster that cannot be clipped, and with a failing buffer.\<close>

definition one_bad_raster :: "(real, string, string list) env" where
  "one_bad_raster = (example_env (sample_bands 1) rename_refusing)
     \<lparr>cliprasterbymasklayer := (\<lambda>raster_path mask output.
         if raster_path = ''/data/bad.tif'' then Raised else Returned (Some output))\<rparr>"

definition buffer_fails :: "(real, string, string list) env" where
  "buffer_fails = (example_env (sample_bands 1) rename_refusing)\<lparr>buffer := (\<lambda>p distance. Raised)\<rparr>"

section \<open>Properties of the name resolver\<close>

lemma unique_name_loop_fresh: "unique_name_loop used base n k |\<notin>| used"
  by (induction used base n k rule: unique_name_loop.induct)
     (subst unique_name_loop.simps, simp)

lemma unique_name_loop_result:
  "(n |\<notin>| used \<and> unique_name_loop used base n k = n) \<or>
   (n |\<in>| used \<and> (\<exists>k'\<ge>k. unique_name_loop used base n k = suffixed base k' \<and>
        (\<forall>j. k \<le> j \<and> j < k' \<longrightarrow> suffixed base j |\<in>| used)))"
proof (induction used base n k rule: unique_name_loop.induct)
  case (1 used base n k)
  show ?case
  proof (cases "n |\<in>| used")
    case False
    then show ?thesis by (subst unique_name_loop.simps) simp
  next
    case True
    have eq: "unique_name_loop used base n k = unique_name_loop used base (suffixed base k) (k + 1)"
      using True by (subst unique_name_loop.simps) simp
    from "1.IH"[OF True] show ?thesis
    proof
      assume "suffixed base k |\<notin>| used \<and> unique_name_loop used base (suffixed base k) (k + 1) = suffixed base k"
      with True eq show ?thesis by (intro disjI2 conjI exI[of _ k]) auto
    next
      assume "suffixed base k |\<in>| used \<and> (\<exists>k'\<ge>k + 1. unique_name_loop used base (suffixed base k) (k + 1) = suffixed base k' \<and>
        (\<forall>j. k + 1 \<le> j \<and> j < k' \<longrightarrow> suffixed base j |\<in>| used))"
      then obtain k' where k': "k + 1 \<le> k'" "unique_name_loop used base (suffixed base k) (k + 1) = suffixed base k'"
        "\<forall>j. k + 1 \<le> j \<and> j < k' \<longrightarrow> suffixed base j |\<in>| used" and sk: "suffixed base k |\<in>| used" by blast
      have "\<forall>j. k \<le> j \<and> j < k' \<longrightarrow> suffixed base j |\<in>| used"
      proof (intro allI impI)
        fix j assume "k \<le> j \<and> j < k'"
        then show "suffixed base j |\<in>| used" using k'(3) sk by (cases "j = k") auto
      qed
      with True eq k' show ?thesis by (intro disjI2 conjI exI[of _ k']) auto
    qed
  qed
qed

lemma unique_names_append:
  "unique_names (xs @ ys) used =
     (let (ns, u1) = unique_names xs used; (ms, u2) = unique_names ys u1 in (ns @ ms, u2))"
  by (induction xs arbitrary: used) (auto simp: Let_def split: prod.splits)

lemma unique_names_length: "length (fst (unique_names bs used)) = length bs"
  by (induction bs arbitrary: used) (simp_all add: Let_def case_prod_beta)

lemma unique_names_fresh:
  "distinct (fst (unique_names bs used)) \<and>
   snd (unique_names bs used) = used |\<union>| fset_of_list (fst (unique_names bs used)) \<and>
   (\<forall>n \<in> set (fst (unique_names bs used)). n |\<notin>| used)"
proof (induction bs arbitrary: used)
  case Nil
  show ?case by simp
next
  case (Cons b bs)
  obtain n u1 where u: "unique_name b used = (n, u1)" by (cases "unique_name b used")
  then have n: "n |\<notin>| used" and u1: "u1 = finsert n used"
    using unique_name_loop_fresh[of used b b 1] by (auto simp: unique_name_def Let_def)
  obtain ns u2 where r: "unique_names bs u1 = (ns, u2)" by (cases "unique_names bs u1")
  from Cons.IH[of u1] r have d: "distinct ns" and s: "u2 = u1 |\<union>| fset_of_list ns"
    and f: "\<forall>m \<in> set ns. m |\<notin>| u1" by auto
  have res: "unique_names (b # bs) used = (n # ns, u2)" using u r by simp
  from f u1 have "n \<notin> set ns" by auto
  moreover from f u1 have "\<forall>m \<in> set ns. m |\<notin>| used" by auto
  ultimately show ?case using res d s n u1 by auto
qed

lemma unique_names_snoc:
  "i < length bs \<Longrightarrow> unique_names (take (Suc i) bs) used =
     (let (ns, u1) = unique_names (take i bs) used; (n, u2) = unique_name (bs ! i) u1
      in (ns @ [n], u2))"
  by (simp add: take_Suc_conv_app_nth unique_names_append Let_def split: prod.splits)

lemma unique_names_nth:
  assumes "i < length bs"
  shows "fst (unique_names bs used) ! i =
         fst (unique_name (bs ! i) (snd (unique_names (take i bs) used)))"
proof -
  have "bs = take (Suc i) bs @ drop (Suc i) bs" by simp
  then have "unique_names bs used = unique_names (take (Suc i) bs @ drop (Suc i) bs) used" by simp
  also have "\<dots> = (let (ns, u1) = unique_names (take (Suc i) bs) used;
       (ms, u2) = unique_names (drop (Suc i) bs) u1 in (ns @ ms, u2))"
    by (rule unique_names_append)
  finally have "fst (unique_names bs used) ! i = fst (unique_names (take (Suc i) bs) used) ! i"
    using assms unique_names_length[of "take (Suc i) bs" used]
    by (auto simp: Let_def nth_append split: prod.splits)
  also have "\<dots> = fst (unique_name (bs ! i) (snd (unique_names (take i bs) used)))"
    using assms unique_names_length[of "take i bs" used]
    by (auto simp: unique_names_snoc Let_def nth_append split: prod.splits)
  finally show ?thesis .
qed

text \<open>
  Claim C1. For every sequence of calls to \<open>unique_name\<close> (duplicate base names allowed,
  from any registry): the returned names contain no repeats; the name returned by call \<open>i\<close>
  is not in the registry that call found and is in the registry it leaves, which is the old
  one plus that name; the name is the base itself when the base is not yet used, and
  otherwise the base followed by \<open>_\<close> and the smallest positive integer \<open>k\<close> such that
  \<open>base_k\<close> is not yet in the registry.
\<close>

theorem unique_name_sequence:
  "distinct (fst (unique_names bases used)) \<and>
   length (fst (unique_names bases used)) = length bases \<and>
   (\<forall>i<length bases.
      let reg = snd (unique_names (take i bases) used);
          b = bases ! i;
          n = fst (unique_names bases used) ! i
      in n |\<notin>| reg \<and>
         snd (unique_names (take (Suc i) bases) used) = finsert n reg \<and>
         (if b |\<notin>| reg then n = b
          else \<exists>k\<ge>1. n = b @ ''_'' @ str_nat k \<and> 
                 (\<forall>j. 1 \<le> j \<and> j < k \<longrightarrow> b @ ''_'' @ str_nat j |\<in>| reg)))"
proof (intro conjI allI impI)
  show "distinct (fst (unique_names bases used))" using unique_names_fresh by blast
  show "length (fst (unique_names bases used)) = length bases" by (rule unique_names_length)
  fix i assume i: "i < length bases"
  define reg where "reg = snd (unique_names (take i bases) used)"
  define b where "b = bases ! i"
  define n where "n = fst (unique_names bases used) ! i"
  have n_eq: "n = unique_name_loop reg b b 1"
    using unique_names_nth[OF i, of used] by (simp add: n_def reg_def b_def unique_name_def Let_def)
  have fresh: "n |\<notin>| reg" unfolding n_eq by (rule unique_name_loop_fresh)
  have upd: "snd (unique_names (take (Suc i) bases) used) = finsert n reg"
    using i by (simp add: unique_names_snoc n_eq reg_def b_def unique_name_def Let_def split: prod.splits)
  have shape: "if b |\<notin>| reg then n = b
          else \<exists>k\<ge>1. n = b @ ''_'' @ str_nat k \<and> 
                 (\<forall>j. 1 \<le> j \<and> j < k \<longrightarrow> b @ ''_'' @ str_nat j |\<in>| reg)"
    using unique_name_loop_result[of b reg b 1] by (auto simp: n_eq suffixed_def)
  from fresh upd shape
  show "let reg = snd (unique_names (take i bases) used);
          b = bases ! i;
          n = fst (unique_names bases used) ! i
      in n |\<notin>| reg \<and>
         snd (unique_names (take (Suc i) bases) used) = finsert n reg \<and>
         (if b |\<notin>| reg then n = b
          else \<exists>k\<ge>1. n = b @ ''_'' @ str_nat k \<and> 
                 (\<forall>j. 1 \<le> j \<and> j < k \<longrightarrow> b @ ''_'' @ str_nat j |\<in>| reg))"
    unfolding reg_def b_def n_def Let_def by blast
qed

theorem unique_name_sequence_witness:
  "(1::nat) < length [''a'', ''a''] \<and>
   ''a'' |\<in>| snd (unique_names (take 1 [''a'', ''a'']) {||}) \<and>
   fst (unique_names [''a'', ''a''] {||}) ! 1 = ''a_1'' \<and>
   fst (unique_names [''a'', ''a''] {||}) ! 1 |\<notin>| snd (unique_names (take 1 [''a'', ''a'']) {||}) \<and>
   snd (unique_names (take (Suc 1) [''a'', ''a'']) {||}) =
     finsert (fst (unique_names [''a'', ''a''] {||}) ! 1) (snd (unique_names (take 1 [''a'', ''a'']) {||})) \<and>
   distinct (fst (unique_names [''a'', ''a''] {||}))"
proof -
  have e1: "unique_names [''a''] {||} = ([''a''], {|''a''|})"
    by (simp add: unique_name_def unique_name_loop.simps Let_def)
  have e2: "fst (unique_names [''a'', ''a''] {||}) = [''a'', ''a_1'']"
    by (simp add: unique_name_def unique_name_loop.simps suffixed_def str_nat.simps digit_char_def Let_def)
  from unique_name_sequence[of "[''a'', ''a'']" "{||}"]
  have "distinct (fst (unique_names [''a'', ''a''] {||}))"
    and "\<forall>i<length [''a'', ''a''].
      let reg = snd (unique_names (take i [''a'', ''a'']) {||});
          b = [''a'', ''a''] ! i;
          n = fst (unique_names [''a'', ''a''] {||}) ! i
      in n |\<notin>| reg \<and>
         snd (unique_names (take (Suc i) [''a'', ''a'']) {||}) = finsert n reg \<and>
         (if b |\<notin>| reg then n = b
          else \<exists>k\<ge>1. n = b @ ''_'' @ str_nat k \<and> 
                 (\<forall>j. 1 \<le> j \<and> j < k \<longrightarrow> b @ ''_'' @ str_nat j |\<in>| reg))"
    by blast+
  then show ?thesis using e1 e2 by (auto simp: Let_def)
qed

subsection \<open>Sorting by numeric suffix\<close>

lemma latin1_decimal_digit_char: "d < 10 \<Longrightarrow> latin1_decimal (digit_char d) = Some d"
proof -
  assume "d < 10"
  then have "d \<in> {0,1,2,3,4,5,6,7,8,9}" by auto
  then show ?thesis by (auto simp: latin1_decimal_def digit_char_def)
qed

lemma int_of_digits_snoc:
  "int_of_digits decimal (s @ [c]) =
     10 * int_of_digits decimal s + (case decimal c of Some d \<Rightarrow> d | None \<Rightarrow> 0)"
  by (simp add: int_of_digits_def)

lemma int_of_digits_str_nat: "int_of_digits latin1_decimal (str_nat k) = k"
proof (induction k rule: str_nat.induct)
  case (1 k)
  show ?case
  proof (cases "k < 10")
    case True
    then show ?thesis
      by (subst str_nat.simps) (simp add: int_of_digits_def latin1_decimal_digit_char)
  next
    case False
    with 1 show ?thesis
      by (subst str_nat.simps) (simp add: int_of_digits_snoc latin1_decimal_digit_char)
  qed
qed

lemma trailing_digits_append:
  "list_all (\<lambda>c. decimal c \<noteq> None) ds \<Longrightarrow> p = [] \<or> decimal (last p) = None \<Longrightarrow>
   trailing_digits decimal (p @ ds) = ds"
proof -
  assume ds: "list_all (\<lambda>c. decimal c \<noteq> None) ds" and p: "p = [] \<or> decimal (last p) = None"
  let ?P = "\<lambda>c. decimal c \<noteq> None"
  have "takeWhile ?P (rev ds @ rev p) = rev ds"
  proof (cases "p = []")
    case True
    with ds show ?thesis by (simp add: list_all_iff)
  next
    case False
    with p have "\<not> ?P (hd (rev p))" by (simp add: hd_rev)
    moreover from False have "rev p \<noteq> []" by simp
    ultimately have "takeWhile ?P (rev p) = []" by (cases "rev p") auto
    moreover have "takeWhile ?P (rev ds @ rev p) = rev ds @ takeWhile ?P (rev p)"
      by (rule takeWhile_append2) (use ds in \<open>auto simp: list_all_iff\<close>)
    ultimately show ?thesis by simp
  qed
  then show ?thesis by (simp add: trailing_digits_def)
qed

lemma keyfunc_digits:
  assumes nl: "decimal newline = None"
    and ds: "ds \<noteq> []" "list_all (\<lambda>c. decimal c \<noteq> None) ds"
    and p: "p = [] \<or> decimal (last p) = None"
  shows "keyfunc decimal newline (p @ ds) = int_of_digits decimal ds"
proof -
  from ds have "decimal (last ds) \<noteq> None" by (simp add: list_all_iff)
  with nl have "last ds \<noteq> newline" by auto
  then have "last (p @ ds) \<noteq> newline" using ds(1) by simp
  then have "dollar_body newline (p @ ds) = p @ ds" by (simp add: dollar_body_def)
  with ds p show ?thesis by (simp add: keyfunc_def trailing_digits_append)
qed

lemma keyfunc_no_digit:
  assumes "n = [] \<or> (decimal (last n) = None \<and> last n \<noteq> newline)"
  shows "keyfunc decimal newline n = 1"
proof -
  from assms have "dollar_body newline n = n" by (auto simp: dollar_body_def)
  moreover from assms have "trailing_digits decimal n = []"
    using trailing_digits_append[of decimal "[]" n] by auto
  ultimately show ?thesis by (simp add: keyfunc_def)
qed

lemmas key_eval =
  sort_by_suffix_def keyfunc_def dollar_body_def trailing_digits_def int_of_digits_def
  latin1_decimal_def

text \<open>
  Claim C8, as amended. For names over any characters and any table of decimal digits in
  which the newline is not a digit: \<open>sort_by_suffix\<close> is a stable sort by the key of each
  name. The key of a name that ends in a run of decimal digits is the integer value of the
  longest such run, read in base 10 (numeric, not lexicographic: the key of \<open>p\<close> followed
  by the decimal digits of \<open>k\<close> is \<open>k\<close>); the key of a name that is empty or ends in a
  character that is neither a decimal digit nor a newline is 1. In particular
  \<open>sort_by_suffix(["B2","B10","B1"]) = ["B1","B2","B10"]\<close>.
\<close>

theorem sort_by_suffix_numeric:
  "(\<forall>p ds. decimal newline = None \<and> ds \<noteq> [] \<and> list_all (\<lambda>c. decimal c \<noteq> None) ds \<and>
           (p = [] \<or> decimal (last p) = None) \<longrightarrow>
      keyfunc decimal newline (p @ ds) = int_of_digits decimal ds) \<and>
   int_of_digits decimal [] = 0 \<and>
   (\<forall>ds c d. decimal c = Some d \<longrightarrow>
      int_of_digits decimal (ds @ [c]) = 10 * int_of_digits decimal ds + d) \<and>
   (\<forall>n. n = [] \<or> (decimal (last n) = None \<and> last n \<noteq> newline) \<longrightarrow>
      keyfunc decimal newline n = 1) \<and>
   sorted (map (keyfunc decimal newline) (sort_by_suffix decimal newline names)) \<and>
   mset (sort_by_suffix decimal newline names) = mset names \<and>
   (\<forall>k. filter (\<lambda>n. keyfunc decimal newline n = k) (sort_by_suffix decimal newline names) =
        filter (\<lambda>n. keyfunc decimal newline n = k) names) \<and>
   (\<forall>k. int_of_digits latin1_decimal (str_nat k) = k) \<and>
   sort_by_suffix latin1_decimal (CHR 0x0A) [''B2'', ''B10'', ''B1''] = [''B1'', ''B2'', ''B10'']"
proof (intro conjI allI impI)
  show "sort_by_suffix latin1_decimal (CHR 0x0A) [''B2'', ''B10'', ''B1''] = [''B1'', ''B2'', ''B10'']"
    by (simp add: key_eval)
  show "int_of_digits decimal [] = 0" by (simp add: int_of_digits_def)
  fix ds c d assume "decimal c = Some d"
  then show "int_of_digits decimal (ds @ [c]) = 10 * int_of_digits decimal ds + d"
    by (simp add: int_of_digits_snoc)
qed (simp_all add: keyfunc_digits keyfunc_no_digit int_of_digits_str_nat sort_by_suffix_def
      sort_key_stable)

theorem sort_by_suffix_numeric_witness:
  "keyfunc latin1_decimal (CHR 0x0A) (''B'' @ ''10'') = 10 \<and>
   keyfunc latin1_decimal (CHR 0x0A) ''band'' = 1 \<and>
   keyfunc latin1_decimal (CHR 0x0A) (''B'' @ ''2'') < keyfunc latin1_decimal (CHR 0x0A) (''B'' @ ''10'') \<and>
   keyfunc (\<lambda>c::nat. if 48 \<le> c \<and> c \<le> 57 then Some (c - 48)
                      else if 1632 \<le> c \<and> c \<le> 1641 then Some (c - 1632) else None)
     10 ([66] @ [1637]) = 5"
proof -
  let ?nl = "CHR 0x0A"
  let ?u = "\<lambda>c::nat. if 48 \<le> c \<and> c \<le> 57 then Some (c - 48)
                      else if 1632 \<le> c \<and> c \<le> 1641 then Some (c - 1632) else None"
  have d: "latin1_decimal ?nl = None \<and> ''10'' \<noteq> [] \<and>
           list_all (\<lambda>c. latin1_decimal c \<noteq> None) ''10'' \<and>
           (''B'' = [] \<or> latin1_decimal (last ''B'') = None)"
    and d2: "latin1_decimal ?nl = None \<and> ''2'' \<noteq> [] \<and>
           list_all (\<lambda>c. latin1_decimal c \<noteq> None) ''2'' \<and>
           (''B'' = [] \<or> latin1_decimal (last ''B'') = None)"
    and n: "''band'' = [] \<or> (latin1_decimal (last ''band'') = None \<and> last ''band'' \<noteq> ?nl)"
    by (simp_all add: latin1_decimal_def)
  have u: "?u 10 = None \<and> [1637::nat] \<noteq> [] \<and> list_all (\<lambda>c. ?u c \<noteq> None) [1637] \<and>
           ([66::nat] = [] \<or> ?u (last [66]) = None)"
    by simp
  note a = sort_by_suffix_numeric[of latin1_decimal ?nl "[]"]
  note b = sort_by_suffix_numeric[of ?u 10 "[]"]
  from a d d2 n
  have "keyfunc latin1_decimal ?nl (''B'' @ ''10'') = int_of_digits latin1_decimal ''10''"
    "keyfunc latin1_decimal ?nl (''B'' @ ''2'') = int_of_digits latin1_decimal ''2''"
    "keyfunc latin1_decimal ?nl ''band'' = 1"
    by blast+
  moreover from b u have "keyfunc ?u 10 ([66] @ [1637]) = int_of_digits ?u [1637]"
    by blast
  ultimately show ?thesis by (simp add: int_of_digits_def latin1_decimal_def)
qed

text \<open>
  Claim C8 as stated fails on a name that ends in a newline: \<open>$\<close> also matches before a
  final newline, so \<open>"B5\n"\<close>, which has no trailing digit, gets the key 5 and not 1, and is
  sorted after \<open>"B2"\<close>.
\<close>

theorem sort_by_suffix_newline_counterexample:
  "latin1_decimal (last (''B5'' @ [CHR 0x0A])) = None \<and>
   keyfunc latin1_decimal (CHR 0x0A) (''B5'' @ [CHR 0x0A]) = 5 \<and>
   sort_by_suffix latin1_decimal (CHR 0x0A) [''B5'' @ [CHR 0x0A], ''B2''] =
     [''B2'', ''B5'' @ [CHR 0x0A]]"
  by (simp add: key_eval)

section \<open>Properties of the sampling loop\<close>

lemma clip_step_sampler [simp]:
  "clip_step (q\<lparr>rastersampling := s\<rparr>) = clip_step q"
  by (simp add: clip_step_def fun_eq_iff Let_def split: outcome.split option.split)

lemma clip_loop_sampler [simp]:
  "clip_loop (q\<lparr>rastersampling := s\<rparr>) p i rs st = clip_loop q p i rs st"
  by (induction rs arbitrary: i st) simp_all

lemma mask_layer_sampler [simp]:
  "mask_layer (q\<lparr>rastersampling := s\<rparr>) = mask_layer q"
  by (simp add: mask_layer_def fun_eq_iff split: outcome.split)

lemma cell_count_sampler [simp]:
  "cell_count (q\<lparr>rastersampling := s\<rparr>) = cell_count q"
  by (simp add: cell_count_def fun_eq_iff)

lemma grid_extent_sampler [simp]:
  "grid_extent (q\<lparr>rastersampling := s\<rparr>) = grid_extent q"
  by (simp add: grid_extent_def fun_eq_iff Let_def split: sum.split)

lemma processAlgorithm_sampler:
  "isl (processAlgorithm (q\<lparr>rastersampling := s\<rparr>) polygon raster_layers buffer_size) =
   isl (processAlgorithm q polygon raster_layers buffer_size)"
  unfolding processAlgorithm_def
  by (simp add: Let_def split: option.split prod.split sum.split outcome.split)

lemma sample_step_raised:
  assumes "rastersampling q grid r_path (tmp_prefix i) = Raised"
  shows "sample_step q i r_path (used_names, grid, evs) =
     (let final_base = fst (unique_name (base_name_from_clip (stem q) r_path) used_names)
      in (finsert final_base used_names, grid,
          evs @ [PushInfo (''Extracting values from: '' @ final_base),
                 PushWarning (''Error sampling '' @ final_base)]))"
  using assms by (simp add: sample_step_def unique_name_def Let_def)

text \<open>
  Claim C4. When the sampling call of an iteration raises, the iteration only registers the
  raster's name and logs a warning: the grid is the one the iteration started with, and the
  loop goes on with the next raster from there. Whether the pipeline ends in an exception
  does not depend on what the sampling step does, so a sampling failure never aborts the
  batch.
\<close>

theorem sampling_failure_skips_raster:
  "(rastersampling q grid r_path (tmp_prefix i) = Raised \<longrightarrow>
      (let final_base = fst (unique_name (base_name_from_clip (stem q) r_path) used_names);
           skipped = (finsert final_base used_names, grid,
                      evs @ [PushInfo (''Extracting values from: '' @ final_base),
                             PushWarning (''Error sampling '' @ final_base)])
       in sample_step q i r_path (used_names, grid, evs) = skipped \<and>
          (\<not> canceled_sampling q i \<longrightarrow>
             sampling_loop q i (r_path # rest) (used_names, grid, evs) =
             sampling_loop q (Suc i) rest skipped))) \<and>
   isl (processAlgorithm (q\<lparr>rastersampling := s\<rparr>) polygon raster_layers buffer_size) =
   isl (processAlgorithm q polygon raster_layers buffer_size)"
  by (simp add: sample_step_raised processAlgorithm_sampler Let_def)

lemma ev_base: "base_name_from_clip posix_stem ''/tmp/ndvi_clip.tif'' = ''ndvi''"
  by (simp add: base_name_from_clip_def posix_stem_def endswith_def)

theorem sampling_failure_skips_raster_witness:
  "rastersampling (example_env (\<lambda>g r p. Raised) rename_refusing) [''id''] ''/tmp/ndvi_clip.tif''
     (tmp_prefix 0) = Raised \<and>
   \<not> canceled_sampling (example_env (\<lambda>g r p. Raised) rename_refusing) 0 \<and>
   sampling_loop (example_env (\<lambda>g r p. Raised) rename_refusing) 0 [''/tmp/ndvi_clip.tif'']
     ({||}, [''id''], []) =
   ({|''ndvi''|}, [''id''],
    [PushInfo ''Extracting values from: ndvi'', PushWarning ''Error sampling ndvi''])"
proof -
  let ?q = "example_env (\<lambda>g r p. Raised) rename_refusing"
  have h: "rastersampling ?q [''id''] ''/tmp/ndvi_clip.tif'' (tmp_prefix 0) = Raised"
    and c: "\<not> canceled_sampling ?q 0" and st: "stem ?q = posix_stem"
    by (simp_all add: example_env_def)
  have u: "unique_name ''ndvi'' {||} = (''ndvi'', {|''ndvi''|})"
    by (simp add: unique_name_def unique_name_loop.simps Let_def)
  from sampling_failure_skips_raster[of ?q "[''id'']" "''/tmp/ndvi_clip.tif''" 0 "{||}" "[]" "[]"] h c
  show ?thesis by (simp add: Let_def st ev_base u)
qed

lemma new_fields_of_empty:
  "(\<forall>n\<in>set all_names. \<not> startswith n prefix) \<Longrightarrow> set all_names \<subseteq> set fields_before \<Longrightarrow>
   new_fields_of prefix fields_before all_names = []"
  by (auto simp: new_fields_of_def Let_def filter_empty_conv)

lemma base_registered:
  "base |\<in>| finsert (fst (unique_name base used)) used"
proof (cases "base |\<in>| used")
  case True
  then show ?thesis by simp
next
  case False
  then have "unique_name_loop used base base 1 = base"
    by (subst unique_name_loop.simps) simp
  then show ?thesis by (simp add: unique_name_def Let_def)
qed

lemma sample_step_no_new_fields:
  assumes "rastersampling q grid r_path (tmp_prefix i) = Returned grid1"
    and "new_fields_of (tmp_prefix i) (field_names q grid) (field_names q grid1) = []"
  shows "sample_step q i r_path (used_names, grid, evs) =
     (let final_base = fst (unique_name (base_name_from_clip (stem q) r_path) used_names)
      in (finsert final_base used_names, grid1,
          evs @ [PushInfo (''Extracting values from: '' @ final_base)]))"
  using assms
  by (simp add: sample_step_def unique_name_def Let_def sort_by_suffix_def final_names_of_def
      rename_fields_def)

text \<open>
  Claim C10. When the sampling call succeeds but the grid it returns has no field with the
  temporary prefix and no field that the grid did not have before, the iteration makes no
  call on the edit session (the log gains the information line only) and leaves the grid as
  the sampling step returned it; the registry has still grown by the name allocated for the
  raster, so the base name is in it and a later \<open>unique_name\<close> of the same base returns the
  base with the suffix \<open>_k\<close> for the smallest unused \<open>k \<ge> 1\<close>.
\<close>

theorem no_new_columns_consumes_base:
  "rastersampling q grid r_path (tmp_prefix i) = Returned grid1 \<and>
   (\<forall>n\<in>set (field_names q grid1). \<not> startswith n (tmp_prefix i)) \<and>
   set (field_names q grid1) \<subseteq> set (field_names q grid) \<longrightarrow>
   (let base = base_name_from_clip (stem q) r_path;
        final_base = fst (unique_name base used_names)
    in sample_step q i r_path (used_names, grid, evs) =
         (finsert final_base used_names, grid1,
          evs @ [PushInfo (''Extracting values from: '' @ final_base)]) \<and>
       base |\<in>| finsert final_base used_names \<and>
       (\<forall>later. finsert final_base used_names |\<subseteq>| later \<longrightarrow>
          fst (unique_name base later) \<noteq> base \<and>
          (\<exists>k\<ge>1. fst (unique_name base later) = base @ ''_'' @ str_nat k \<and>
                 (\<forall>j. 1 \<le> j \<and> j < k \<longrightarrow> base @ ''_'' @ str_nat j |\<in>| later))))"
proof (intro impI, elim conjE)
  assume s: "rastersampling q grid r_path (tmp_prefix i) = Returned grid1"
    and p: "\<forall>n\<in>set (field_names q grid1). \<not> startswith n (tmp_prefix i)"
    and d: "set (field_names q grid1) \<subseteq> set (field_names q grid)"
  define base where "base = base_name_from_clip (stem q) r_path"
  define final_base where "final_base = fst (unique_name base used_names)"
  have step: "sample_step q i r_path (used_names, grid, evs) =
         (finsert final_base used_names, grid1,
          evs @ [PushInfo (''Extracting values from: '' @ final_base)])"
    using sample_step_no_new_fields[OF s new_fields_of_empty[OF p d]]
    by (simp add: Let_def final_base_def base_def)
  have reg: "base |\<in>| finsert final_base used_names"
    unfolding final_base_def by (rule base_registered)
  have later: "fst (unique_name base later) \<noteq> base \<and>
          (\<exists>k\<ge>1. fst (unique_name base later) = base @ ''_'' @ str_nat k \<and>
                 (\<forall>j. 1 \<le> j \<and> j < k \<longrightarrow> base @ ''_'' @ str_nat j |\<in>| later))"
    if sub: "finsert final_base used_names |\<subseteq>| later" for later
  proof -
    from reg sub have b: "base |\<in>| later" by auto
    have "unique_name_loop later base base 1 |\<notin>| later" by (rule unique_name_loop_fresh)
    with b have ne: "unique_name_loop later base base 1 \<noteq> base" by auto
    from unique_name_loop_result[of base later base 1] b
    obtain k where "k \<ge> 1" "unique_name_loop later base base 1 = suffixed base k"
      "\<forall>j. 1 \<le> j \<and> j < k \<longrightarrow> suffixed base j |\<in>| later" by auto
    with ne show ?thesis by (auto simp: unique_name_def Let_def suffixed_def)
  qed
  from step reg later show "let base = base_name_from_clip (stem q) r_path;
        final_base = fst (unique_name base used_names)
    in sample_step q i r_path (used_names, grid, evs) =
         (finsert final_base used_names, grid1,
          evs @ [PushInfo (''Extracting values from: '' @ final_base)]) \<and>
       base |\<in>| finsert final_base used_names \<and>
       (\<forall>later. finsert final_base used_names |\<subseteq>| later \<longrightarrow>
          fst (unique_name base later) \<noteq> base \<and>
          (\<exists>k\<ge>1. fst (unique_name base later) = base @ ''_'' @ str_nat k \<and>
                 (\<forall>j. 1 \<le> j \<and> j < k \<longrightarrow> base @ ''_'' @ str_nat j |\<in>| later)))"
    unfolding Let_def base_def[symmetric] final_base_def[symmetric] by blast
qed

theorem no_new_columns_consumes_base_witness:
  "rastersampling (example_env (sample_bands 0) rename_refusing) [''id''] ''/tmp/ndvi_clip.tif''
     (tmp_prefix 0) = Returned [''id''] \<and>
   \<not> startswith ''id'' (tmp_prefix 0) \<and>
   sample_step (example_env (sample_bands 0) rename_refusing) 0 ''/tmp/ndvi_clip.tif''
     ({||}, [''id''], []) =
     ({|''ndvi''|}, [''id''], [PushInfo ''Extracting values from: ndvi'']) \<and>
   fst (unique_name ''ndvi'' {|''ndvi''|}) \<noteq> ''ndvi'' \<and>
   fst (unique_name ''ndvi'' {|''ndvi''|}) = ''ndvi_1''"
proof -
  let ?q = "example_env (sample_bands 0) rename_refusing"
  have h: "rastersampling ?q [''id''] ''/tmp/ndvi_clip.tif'' (tmp_prefix 0) = Returned [''id'']"
    and f: "field_names ?q [''id''] = [''id'']" and st: "stem ?q = posix_stem"
    by (simp_all add: example_env_def sample_bands_def)
  have p: "\<not> startswith ''id'' (tmp_prefix 0)"
    by (simp add: startswith_def tmp_prefix_def)
  have u: "fst (unique_name ''ndvi'' {||}) = ''ndvi''"
    by (simp add: unique_name_def unique_name_loop.simps Let_def)
  have u1: "fst (unique_name ''ndvi'' {|''ndvi''|}) = ''ndvi_1''"
    by (simp add: unique_name_def unique_name_loop.simps Let_def suffixed_def str_nat.simps
        digit_char_def)
  from no_new_columns_consumes_base[of ?q "[''id'']" "''/tmp/ndvi_clip.tif''" 0 "[''id'']" "{||}" "[]"]
    h p
  have "sample_step ?q 0 ''/tmp/ndvi_clip.tif'' ({||}, [''id''], []) =
     ({|''ndvi''|}, [''id''], [PushInfo ''Extracting values from: ndvi''])"
    and "\<forall>later. {|''ndvi''|} |\<subseteq>| later \<longrightarrow> fst (unique_name ''ndvi'' later) \<noteq> ''ndvi''"
    by (simp_all add: Let_def f st ev_base u)
  then show ?thesis using h p u1 by simp
qed


section \<open>Properties of the pipeline\<close>

lemma ev_grid:
  "grid_extent (example_env sampler renamer)
     \<lparr>center_x = 5, center_y = 5, width = 10, height = 10\<rparr> 1 1 =
   Inr \<lparr>xMinimum = - 1 / 2, yMinimum = - 1 / 2, xMaximum = 21 / 2, yMaximum = 21 / 2\<rparr>"
  by (simp add: grid_extent_def cell_count_def example_env_def Let_def)

lemma ev_stem: "posix_stem ''/data/ndvi.tif'' = ''ndvi''"
  "posix_stem ''/tmp/ndvi_clip.tif'' = ''ndvi_clip''"
  "posix_stem ''/data/bad.tif'' = ''bad''"
  by (simp_all add: posix_stem_def)

lemma rename_fields_log:
  "rename_fields q fb m (g, evs) =
     (fst (rename_fields q fb m (g, [])), evs @ snd (rename_fields q fb m (g, [])))"
  by (simp add: rename_fields_def Let_def split: prod.split outcome.split)

lemma sample_step_log:
  "sample_step q i r (u, g, evs) =
     (case sample_step q i r (u, g, []) of (u', g', e') \<Rightarrow> (u', g', evs @ e'))"
  unfolding sample_step_def
  by (simp add: Let_def rename_fields_log[of _ _ _ _ "_ @ _"] rename_fields_log[of _ _ _ _ "[_]"]
      split: prod.split outcome.split)

lemma sampling_loop_log:
  "sampling_loop q i rs (u, g, evs) =
     (case sampling_loop q i rs (u, g, []) of (u', g', e') \<Rightarrow> (u', g', evs @ e'))"
proof (induction rs arbitrary: i u g evs)
  case Nil
  show ?case by simp
next
  case (Cons r rs)
  obtain u1 g1 e1 where s: "sample_step q i r (u, g, []) = (u1, g1, e1)"
    by (cases "sample_step q i r (u, g, [])") auto
  then have s': "sample_step q i r (u, g, evs) = (u1, g1, evs @ e1)"
    by (simp add: sample_step_log[of q i r u g evs])
  obtain u2 g2 e2 where l: "sampling_loop q (Suc i) rs (u1, g1, []) = (u2, g2, e2)"
    by (cases "sampling_loop q (Suc i) rs (u1, g1, [])") auto
  show ?case
    using s s' l Cons.IH[of "Suc i" u1 g1 "evs @ e1"] Cons.IH[of "Suc i" u1 g1 e1]
    by simp
qed

lemma sampling_loop_grid:
  "fst (snd (sampling_loop q i rs (u, g, evs))) = fst (snd (sampling_loop q i rs (u, g, [])))"
  by (subst sampling_loop_log) (simp split: prod.split)

lemma mask_layer_zero: "\<not> buffer_size > 0 \<Longrightarrow> mask_layer q p buffer_size = (p, [])"
  by (simp add: mask_layer_def)

lemma mask_layer_failed:
  "buffer_size > 0 \<Longrightarrow> buffer q p (- buffer_size) = Raised \<Longrightarrow>
   mask_layer q p buffer_size = (p, [PushWarning ''Buffer failed''])"
  by (simp add: mask_layer_def)

lemma processAlgorithm_buffer_failed:
  assumes "buffer_size > 0" "buffer q p (- buffer_size) = Raised"
  shows "map_sum id fst (processAlgorithm q (Some p) raster_layers buffer_size) =
         map_sum id fst (processAlgorithm q (Some p) raster_layers 0)"
  unfolding processAlgorithm_def
  by (simp add: Let_def case_prod_beta mask_layer_failed[OF assms] mask_layer_zero
      sampling_loop_grid[of _ _ _ _ _ "_ @ _"]
      split: option.split sum.split outcome.split)

text \<open>
  Claim C9. With a buffer distance of 0 the mask is the input polygon whatever the buffer
  operation would do (it is not called). With a positive distance and a buffer operation
  that raises, the mask is the input polygon and one warning is logged; the run then ends
  in the same exception or the same final grid as the run without a buffer, so the buffer
  failure alone does not abort the pipeline.
\<close>

theorem buffer_is_optional:
  "(buffer_size = 0 \<longrightarrow>
      (\<forall>b. mask_layer (q\<lparr>buffer := b\<rparr>) polygon_layer buffer_size = (polygon_layer, []))) \<and>
   (buffer_size > 0 \<and> buffer q polygon_layer (- buffer_size) = Raised \<longrightarrow>
      mask_layer q polygon_layer buffer_size = (polygon_layer, [PushWarning ''Buffer failed'']) \<and>
      map_sum id fst (processAlgorithm q (Some polygon_layer) raster_layers buffer_size) =
      map_sum id fst (processAlgorithm q (Some polygon_layer) raster_layers 0))"
  by (simp add: mask_layer_zero mask_layer_failed processAlgorithm_buffer_failed)

theorem buffer_is_optional_witness:
  "(2::real) > 0 \<and> buffer buffer_fails ''field'' (- 2) = Raised \<and>
   mask_layer buffer_fails ''field'' 0 = (''field'', []) \<and>
   mask_layer buffer_fails ''field'' 2 = (''field'', [PushWarning ''Buffer failed'']) \<and>
   map_sum id fst (processAlgorithm buffer_fails (Some ''field'') [''/data/ndvi.tif''] 2) =
     Inr [''id'', ''ndvi'']"
proof -
  have h: "(2::real) > 0" "buffer buffer_fails ''field'' (- 2) = Raised"
    by (simp_all add: buffer_fails_def example_env_def)
  have r: "map_sum id fst (processAlgorithm buffer_fails (Some ''field'') [''/data/ndvi.tif''] 0) =
     Inr [''id'', ''ndvi'']"
    by (simp add: processAlgorithm_def buffer_fails_def example_env_def clip_step_def ev_stem
        grid_extent_def cell_count_def Let_def mask_layer_def sample_step_def base_name_from_clip_def endswith_def
        unique_name_def unique_name_loop.simps sample_bands_def tmp_prefix_def str_nat.simps
        digit_char_def new_fields_of_def startswith_def sort_by_suffix_def final_names_of_def
        rename_fields_def rename_refusing_def)
  have z: "mask_layer (buffer_fails\<lparr>buffer := buffer buffer_fails\<rparr>) ''field'' 0 = (''field'', [])"
    using buffer_is_optional[of 0 buffer_fails "''field''" "[]"] by blast
  from buffer_is_optional[of 2 buffer_fails "''field''" "[''/data/ndvi.tif'']"] h
  have "mask_layer buffer_fails ''field'' 2 = (''field'', [PushWarning ''Buffer failed''])"
    and "map_sum id fst (processAlgorithm buffer_fails (Some ''field'') [''/data/ndvi.tif''] 2) =
         map_sum id fst (processAlgorithm buffer_fails (Some ''field'') [''/data/ndvi.tif''] 0)"
    by simp_all
  with h r z show ?thesis by simp
qed

lemma grid_extent_Inl: "grid_extent q ext rx ry = Inl e \<Longrightarrow> e \<noteq> QgsProcessingException msg"
  by (auto simp: grid_extent_def cell_count_def Let_def
      split: if_splits sum.splits truncation.splits)

lemma clip_step_failed:
  assumes "cliprasterbymasklayer q raster_path p (temp_path q (stem q raster_path @ ''_clip.tif''))
             = Raised \<or>
           cliprasterbymasklayer q raster_path p (temp_path q (stem q raster_path @ ''_clip.tif''))
             = Returned None \<or>
           (\<exists>out. cliprasterbymasklayer q raster_path p
                     (temp_path q (stem q raster_path @ ''_clip.tif'')) = Returned (Some out) \<and>
                  (out = [] \<or> \<not> path_exists q out))"
  shows "\<exists>w. clip_step q p raster_path (clipped, evs) =
           (clipped, evs @ [PushInfo (''Clipping raster: '' @ stem q raster_path), PushWarning w])"
  using assms by (auto simp: clip_step_def Let_def)

lemma processAlgorithm_fatal_iff:
  "(\<exists>msg. processAlgorithm q polygon raster_layers buffer_size =
            Inl (QgsProcessingException msg)) \<longleftrightarrow>
    (case polygon of
       None \<Rightarrow> True
     | Some polygon_layer \<Rightarrow>
         \<not> polygon_isValid q polygon_layer \<or> raster_layers = [] \<or>
         (let clipped_rasters =
                fst (clip_loop q polygon_layer 0 raster_layers ([], [PushInfo ''Starting processing'']))
          in clipped_rasters = [] \<or>
             (let ref_layer = QgsRasterLayer q (hd clipped_rasters);
                  res_x = rasterUnitsPerPixelX ref_layer;
                  res_y = rasterUnitsPerPixelY ref_layer
              in \<not> isValid ref_layer \<or>
                 (\<exists>ge. grid_extent q (extent ref_layer) res_x res_y = Inr ge \<and>
                    (creategrid q ge res_x res_y (crs ref_layer) = Raised \<or>
                     (\<exists>grid_layer.
                        creategrid q ge res_x res_y (crs ref_layer) = Returned grid_layer \<and>
                        clip q grid_layer (fst (mask_layer q polygon_layer buffer_size)) = Raised))))))"
  unfolding processAlgorithm_def
  by (auto simp: Let_def case_prod_beta dest: grid_extent_Inl
      split: option.split sum.split outcome.split)

text \<open>
  Claim C5. The pipeline ends in a \<open>QgsProcessingException\<close> if and only if the polygon is
  missing or invalid, or the raster list is empty, or no raster survives clipping, or the
  first clipped raster does not load, or the grid creation raises, or clipping the grid to
  the mask raises. A raster whose clip raises, returns no output or returns a path that
  does not exist only adds a warning: the list of clipped rasters is unchanged and the loop
  goes on with the next raster.
\<close>

theorem fatal_conditions:
  "((\<exists>msg. processAlgorithm q polygon raster_layers buffer_size =
            Inl (QgsProcessingException msg)) \<longleftrightarrow>
    (case polygon of
       None \<Rightarrow> True
     | Some polygon_layer \<Rightarrow>
         \<not> polygon_isValid q polygon_layer \<or> raster_layers = [] \<or>
         (let clipped_rasters =
                fst (clip_loop q polygon_layer 0 raster_layers ([], [PushInfo ''Starting processing'']))
          in clipped_rasters = [] \<or>
             (let ref_layer = QgsRasterLayer q (hd clipped_rasters);
                  res_x = rasterUnitsPerPixelX ref_layer;
                  res_y = rasterUnitsPerPixelY ref_layer
              in \<not> isValid ref_layer \<or>
                 (\<exists>ge. grid_extent q (extent ref_layer) res_x res_y = Inr ge \<and>
                    (creategrid q ge res_x res_y (crs ref_layer) = Raised \<or>
                     (\<exists>grid_layer.
                        creategrid q ge res_x res_y (crs ref_layer) = Returned grid_layer \<and>
                        clip q grid_layer (fst (mask_layer q polygon_layer buffer_size)) = Raised))))))) \<and>
   ((let result = cliprasterbymasklayer q raster_path p
                    (temp_path q (stem q raster_path @ ''_clip.tif''))
     in result = Raised \<or> result = Returned None \<or>
        (\<exists>out. result = Returned (Some out) \<and> (out = [] \<or> \<not> path_exists q out))) \<longrightarrow>
    (\<exists>w. clip_step q p raster_path (clipped, evs) =
            (clipped, evs @ [PushInfo (''Clipping raster: '' @ stem q raster_path), PushWarning w]) \<and>
         (\<not> canceled_clipping q i \<longrightarrow>
            clip_loop q p i (raster_path # rest) (clipped, evs) =
            clip_loop q p (Suc i) rest
              (clipped, evs @ [PushInfo (''Clipping raster: '' @ stem q raster_path), PushWarning w]))))"
proof (intro conjI impI)
  assume "let result = cliprasterbymasklayer q raster_path p
                    (temp_path q (stem q raster_path @ ''_clip.tif''))
     in result = Raised \<or> result = Returned None \<or>
        (\<exists>out. result = Returned (Some out) \<and> (out = [] \<or> \<not> path_exists q out))"
  then obtain w where "clip_step q p raster_path (clipped, evs) =
            (clipped, evs @ [PushInfo (''Clipping raster: '' @ stem q raster_path), PushWarning w])"
    using clip_step_failed[of q raster_path p clipped evs] by (auto simp: Let_def)
  then show "\<exists>w. clip_step q p raster_path (clipped, evs) =
            (clipped, evs @ [PushInfo (''Clipping raster: '' @ stem q raster_path), PushWarning w]) \<and>
         (\<not> canceled_clipping q i \<longrightarrow>
            clip_loop q p i (raster_path # rest) (clipped, evs) =
            clip_loop q p (Suc i) rest
              (clipped, evs @ [PushInfo (''Clipping raster: '' @ stem q raster_path), PushWarning w]))"
    by (intro exI[of _ w]) simp
qed (rule processAlgorithm_fatal_iff)

theorem fatal_conditions_witness:
  "\<not> (\<exists>msg. processAlgorithm one_bad_raster (Some ''field'') [''/data/bad.tif'', ''/data/ndvi.tif''] 0 =
            Inl (QgsProcessingException msg)) \<and>
   (\<exists>msg. processAlgorithm one_bad_raster (Some ''field'') [''/data/bad.tif''] 0 =
            Inl (QgsProcessingException msg)) \<and>
   (\<exists>msg. processAlgorithm one_bad_raster None [''/data/bad.tif'', ''/data/ndvi.tif''] 0 =
            Inl (QgsProcessingException msg)) \<and>
   cliprasterbymasklayer one_bad_raster ''/data/bad.tif'' ''field''
      (temp_path one_bad_raster (stem one_bad_raster ''/data/bad.tif'' @ ''_clip.tif'')) = Raised \<and>
   (\<exists>w. clip_loop one_bad_raster ''field'' 0 [''/data/bad.tif'', ''/data/ndvi.tif''] ([], []) =
        clip_loop one_bad_raster ''field'' 1 [''/data/ndvi.tif'']
          ([], [PushInfo ''Clipping raster: bad'', PushWarning w]))"
proof -
  have c: "cliprasterbymasklayer one_bad_raster ''/data/bad.tif'' ''field''
      (temp_path one_bad_raster (stem one_bad_raster ''/data/bad.tif'' @ ''_clip.tif'')) = Raised"
    and nc: "\<not> canceled_clipping one_bad_raster 0"
    and st: "stem one_bad_raster ''/data/bad.tif'' = ''bad''"
    by (simp_all add: one_bad_raster_def example_env_def ev_stem)
  have l2: "fst (clip_loop one_bad_raster ''field'' 0 [''/data/bad.tif'', ''/data/ndvi.tif'']
              ([], [PushInfo ''Starting processing''])) = [''/tmp/ndvi_clip.tif'']"
    and l1: "fst (clip_loop one_bad_raster ''field'' 0 [''/data/bad.tif'']
              ([], [PushInfo ''Starting processing''])) = []"
    by (simp_all add: one_bad_raster_def example_env_def clip_step_def ev_stem Let_def)
  have env: "polygon_isValid one_bad_raster ''field''"
    "isValid (QgsRasterLayer one_bad_raster ''/tmp/ndvi_clip.tif'')"
    "extent (QgsRasterLayer one_bad_raster ''/tmp/ndvi_clip.tif'') =
       \<lparr>center_x = 5, center_y = 5, width = 10, height = 10\<rparr>"
    "rasterUnitsPerPixelX (QgsRasterLayer one_bad_raster ''/tmp/ndvi_clip.tif'') = 1"
    "rasterUnitsPerPixelY (QgsRasterLayer one_bad_raster ''/tmp/ndvi_clip.tif'') = 1"
    "\<And>ge rx ry c. creategrid one_bad_raster ge rx ry c = Returned [''id'']"
    "\<And>g m. clip one_bad_raster g m = Returned g"
    by (simp_all add: one_bad_raster_def example_env_def)
  have ge: "grid_extent one_bad_raster \<lparr>center_x = 5, center_y = 5, width = 10, height = 10\<rparr> 1 1 =
      Inr \<lparr>xMinimum = - 1 / 2, yMinimum = - 1 / 2, xMaximum = 21 / 2, yMaximum = 21 / 2\<rparr>"
    by (simp add: one_bad_raster_def grid_extent_def cell_count_def example_env_def Let_def)
  have a: "\<not> (\<exists>msg. processAlgorithm one_bad_raster (Some ''field'')
              [''/data/bad.tif'', ''/data/ndvi.tif''] 0 = Inl (QgsProcessingException msg))"
    using fatal_conditions[THEN conjunct1,
        of one_bad_raster "Some ''field''" "[''/data/bad.tif'', ''/data/ndvi.tif'']" 0]
    by (simp add: l2 env ge Let_def del: clip_loop.simps)
  have b: "\<exists>msg. processAlgorithm one_bad_raster (Some ''field'') [''/data/bad.tif''] 0 =
            Inl (QgsProcessingException msg)"
    using fatal_conditions[THEN conjunct1, of one_bad_raster "Some ''field''" "[''/data/bad.tif'']" 0]
    by (simp add: l1 env Let_def del: clip_loop.simps)
  have n: "\<exists>msg. processAlgorithm one_bad_raster None [''/data/bad.tif'', ''/data/ndvi.tif''] 0 =
            Inl (QgsProcessingException msg)"
    using fatal_conditions[THEN conjunct1,
        of one_bad_raster None "[''/data/bad.tif'', ''/data/ndvi.tif'']" 0]
    by simp
  have d: "\<exists>w. clip_loop one_bad_raster ''field'' 0 [''/data/bad.tif'', ''/data/ndvi.tif''] ([], []) =
        clip_loop one_bad_raster ''field'' 1 [''/data/ndvi.tif'']
          ([], [PushInfo ''Clipping raster: bad'', PushWarning w])"
    using fatal_conditions[THEN conjunct2, of one_bad_raster "''/data/bad.tif''" "''field''"
        "[]" "[]" 0 "[''/data/ndvi.tif'']"] c nc
    by (auto simp: st Let_def simp del: clip_loop.simps)
  from a b n c d show ?thesis by blast
qed


section \<open>Failing runs\<close>

lemmas sample_eval =
  sample_step_def example_env_def posix_stem_def base_name_from_clip_def endswith_def
  unique_name_def unique_name_loop.simps suffixed_def sample_bands_def tmp_prefix_def
  str_nat.simps digit_char_def new_fields_of_def startswith_def sort_by_suffix_def
  keyfunc_def dollar_body_def trailing_digits_def int_of_digits_def latin1_decimal_def
  final_names_of_def band_name_def rename_fields_def Let_def

lemmas run_eval =
  processAlgorithm_def clip_step_def mask_layer_def grid_extent_def cell_count_def
  rename_refusing_def sample_eval

lemma rename_fields_raised:
  "rename_map \<noteq> [] \<Longrightarrow> renameAttributes q rename_map (startEditing q grid) = (g2, Raised) \<Longrightarrow>
   rename_fields q final_base rename_map (grid, evs) =
     (g2, evs @ [StartEditing, RenameAttributes rename_map,
                 PushWarning (''Error renaming fields for '' @ final_base)])"
  by (simp add: rename_fields_def Let_def)

text \<open>
  Claim C7 on an iteration whose \<open>renameAttributes\<close> raises after the provider has renamed
  the first of two band columns: the handler only logs a warning. No \<open>rollBack\<close> is called,
  the edit session stays open, and the grid goes on to the next iteration with one column
  under its final name and the other under its temporary name.
\<close>

theorem rename_exception_no_rollback:
  "sample_step (example_env (sample_bands 2) rename_raising) 0 ''/tmp/ndvi_clip.tif''
     ({||}, [''id''], []) =
   ({|''ndvi'', ''ndvi_B1'', ''ndvi_B2''|}, [''id'', ''ndvi_B1'', ''tmp0__2''],
    [PushInfo ''Extracting values from: ndvi'', StartEditing,
     RenameAttributes [(1, ''ndvi_B1''), (2, ''ndvi_B2'')],
     PushWarning ''Error renaming fields for ndvi''])"
  by (simp add: sample_eval rename_raising_def upt_conv_Cons) auto

text \<open>
  Claim C3 on a run with the rasters \<open>tmp1__dem.tif\<close> and \<open>b.tif\<close>, one band each. In the
  second iteration the sampling step adds exactly one column, \<open>tmp1__1\<close>, to the grid
  \<open>id, tmp1__dem\<close>; but the column of the first raster starts with the prefix \<open>tmp1__\<close> as
  well, and line 363 takes both for new columns. The code asks for the names \<open>b_B1\<close> and
  \<open>b_B2\<close>: the one new column is not named \<open>b\<close>, and the column of the first raster ends
  under the name \<open>b_B1\<close>.
\<close>

theorem one_new_column_named_as_two:
  "rastersampling (example_env (sample_bands 1) rename_refusing) [''id'', ''tmp1__dem'']
     ''/tmp/b_clip.tif'' (tmp_prefix 1) = Returned [''id'', ''tmp1__dem'', ''tmp1__1''] \<and>
   processAlgorithm (example_env (sample_bands 1) rename_refusing) (Some ''field'')
     [''/data/tmp1__dem.tif'', ''/data/b.tif''] 0 =
   Inr ([''id'', ''b_B1'', ''b_B2''],
      [PushInfo ''Starting processing'',
       PushInfo ''Clipping raster: tmp1__dem'',
       PushInfo ''Clipping raster: b'', PushInfo ''Creating point grid'',
       PushInfo ''Applying internal buffer'',
       PushInfo ''Clipping grid to field boundary'',
       PushInfo ''Sampling rasters'',
       PushInfo ''Extracting values from: tmp1__dem'', StartEditing,
       RenameAttributes [(1, ''tmp1__dem'')], UpdateFields, CommitChanges,
       PushInfo ''Extracting values from: b'', StartEditing,
       RenameAttributes [(1, ''b_B1''), (2, ''b_B2'')], UpdateFields,
       CommitChanges, PushInfo ''Writing final outputs''])"
  by (simp add: run_eval upt_conv_Cons)

text \<open>
  Claim C2 on a run with the raster \<open>id.tif\<close>, on a grid that has the field \<open>id\<close>. The
  registry starts empty, so \<open>unique_name\<close> returns \<open>id\<close> although a column has that name:
  the name that the code gives to the new column collides with it. The provider refuses
  the name, and the values of the raster stay in the column \<open>tmp0__1\<close>.
\<close>

theorem final_name_collides_with_grid_field:
  "fst (unique_name ''id'' {||}) = ''id'' \<and>
   processAlgorithm (example_env (sample_bands 1) rename_refusing) (Some ''field'')
     [''/data/id.tif''] 0 =
   Inr ([''id'', ''tmp0__1''],
      [PushInfo ''Starting processing'', PushInfo ''Clipping raster: id'',
       PushInfo ''Creating point grid'',
       PushInfo ''Applying internal buffer'',
       PushInfo ''Clipping grid to field boundary'',
       PushInfo ''Sampling rasters'',
       PushInfo ''Extracting values from: id'', StartEditing,
       RenameAttributes [(1, ''id'')], UpdateFields, RollBack,
       PushWarning ''Field renaming failed for one or more fields.'',
       PushInfo ''Writing final outputs''])"
  by (simp add: run_eval)

end
